theory Spec2Isabelle
  imports Main "HOL-Library.List_Lexorder"
begin

section \<open>generate\_pdf.py: Markdown file to PDF\<close>

text \<open>
  The program is one Python file. It reads a text file, hands it to the Markdown library,
  parses the resulting HTML with BeautifulSoup, walks the elements found by
  \<^verbatim>\<open>find_all\<close> and issues FPDF drawing calls, then writes the document.

  Three libraries are called and are not part of the repository. They enter the model as
  follows.
  \<^item> \<^verbatim>\<open>markdown.markdown\<close> is a parameter \<open>md\<close>, a function from strings to strings.
  \<^item> \<^verbatim>\<open>BeautifulSoup(html, 'html.parser')\<close> is a parameter \<open>parse_html\<close>, a function
    from strings to trees; the tree type and the three tree operations the program calls
    (\<^verbatim>\<open>find_all\<close>, \<^verbatim>\<open>get_text\<close>, \<^verbatim>\<open>.name\<close>) are defined below.
  \<^item> FPDF is a record holding the current font, the page counter and the list of what has
    been drawn; the automatic page breaks of the library are a parameter \<open>L\<close>.
\<close>

subsection \<open>Python strings\<close>

text \<open>
  A Python \<^verbatim>\<open>str\<close> is a sequence of Unicode code points. The bullet literal of the
  source lies outside one byte, so a string is a list of code points.
\<close>

type_synonym str = "nat list"

definition ascii :: "string \<Rightarrow> str" where
  "ascii cs = map of_char cs"

text \<open>
  \<^verbatim>\<open>str.strip()\<close> without argument removes leading and trailing characters for which
  \<^verbatim>\<open>str.isspace\<close> holds: U+0009..U+000D, U+001C..U+0020, U+0085, U+00A0, U+1680,
  U+2000..U+200A, U+2028, U+2029, U+202F, U+205F, U+3000.
\<close>

definition isspace :: "nat \<Rightarrow> bool" where
  "isspace c \<longleftrightarrow>
     (9 \<le> c \<and> c \<le> 13) \<or> (28 \<le> c \<and> c \<le> 32) \<or> c = 133 \<or> c = 160 \<or> c = 5760 \<or>
     (8192 \<le> c \<and> c \<le> 8202) \<or> c = 8232 \<or> c = 8233 \<or> c = 8239 \<or> c = 8287 \<or> c = 12288"

definition strip :: "str \<Rightarrow> str" where
  "strip s = rev (dropWhile isspace (rev (dropWhile isspace s)))"

subsection \<open>The parsed tree\<close>

text \<open>
  What \<^verbatim>\<open>BeautifulSoup(html_content, 'html.parser')\<close> returns: a tree of tags, each
  with a name and its contents in order, whose leaves are strings. \<open>Comment\<close> stands for
  the string kinds that \<^verbatim>\<open>get_text\<close> leaves out (comments, declarations and the like).
  The soup object itself is a tag whose contents are the top-level nodes.
\<close>

datatype node = Tag string "node list" | NavigableString str | Comment str

text \<open>\<^verbatim>\<open>.descendants\<close>: every node below the given one, parents before children, left to
  right; the node itself is not included.\<close>

fun descendants :: "node \<Rightarrow> node list" where
  "descendants (Tag n cs) = concat (map (\<lambda>c. c # descendants c) cs)"
| "descendants (NavigableString s) = []"
| "descendants (Comment s) = []"

text \<open>\<^verbatim>\<open>get_text()\<close>: the strings among the descendants, joined with no separator. On a
  string node it is the string.\<close>

fun own_string :: "node \<Rightarrow> str" where
  "own_string (NavigableString s) = s"
| "own_string (Tag n cs) = []"
| "own_string (Comment s) = []"

fun get_text :: "node \<Rightarrow> str" where
  "get_text (Tag n cs) = concat (map own_string (descendants (Tag n cs)))"
| "get_text (NavigableString s) = s"
| "get_text (Comment s) = []"

text \<open>\<^verbatim>\<open>find_all(names)\<close> with a list of names: the descendants that are tags whose name
  is in the list, in the order of \<^verbatim>\<open>.descendants\<close>.\<close>

fun named :: "string list \<Rightarrow> node \<Rightarrow> bool" where
  "named names (Tag n cs) = (n \<in> set names)"
| "named names (NavigableString s) = False"
| "named names (Comment s) = False"

definition find_all :: "string list \<Rightarrow> node \<Rightarrow> node list" where
  "find_all names root = filter (named names) (descendants root)"

subsection \<open>The FPDF document\<close>

text \<open>
  The document records every drawing call with the font that was current when it was
  made: \<open>Ln h\<close> for \<^verbatim>\<open>ln(h)\<close>, \<open>Cell w h txt family size\<close> for \<^verbatim>\<open>cell(w, h, txt)\<close> and
  \<open>MultiCell w h txt family size\<close> for \<^verbatim>\<open>multi_cell(w, h, txt)\<close>.
\<close>

datatype item =
    Ln nat
  | Cell nat nat str string nat
  | MultiCell nat nat str string nat

record pdf =
  font_family :: string
  font_size_pt :: nat
  page :: nat
  drawn :: "item list"

text \<open>The library breaks pages by its own layout rules while it draws a cell. \<open>L pdf it\<close>
  is the number of pages it adds when item \<open>it\<close> is drawn in state \<open>pdf\<close>.\<close>

type_synonym layout = "pdf \<Rightarrow> item \<Rightarrow> nat"

text \<open>\<^verbatim>\<open>FPDF.__init__\<close>: no page, no font family, 12 points.\<close>

definition FPDF :: pdf where
  "FPDF = \<lparr>font_family = [], font_size_pt = 12, page = 0, drawn = []\<rparr>"

definition add_page :: "pdf \<Rightarrow> pdf" where
  "add_page d = d\<lparr>page := page d + 1\<rparr>"

definition set_font :: "string \<Rightarrow> nat \<Rightarrow> pdf \<Rightarrow> pdf" where
  "set_font family sz d = d\<lparr>font_family := family, font_size_pt := sz\<rparr>"

definition ln :: "nat \<Rightarrow> pdf \<Rightarrow> pdf" where
  "ln h d = d\<lparr>drawn := drawn d @ [Ln h]\<rparr>"

definition cell :: "layout \<Rightarrow> nat \<Rightarrow> nat \<Rightarrow> str \<Rightarrow> pdf \<Rightarrow> pdf" where
  "cell L w h txt d =
     (let it = Cell w h txt (font_family d) (font_size_pt d)
      in d\<lparr>page := page d + L d it, drawn := drawn d @ [it]\<rparr>)"

definition multi_cell :: "layout \<Rightarrow> nat \<Rightarrow> nat \<Rightarrow> str \<Rightarrow> pdf \<Rightarrow> pdf" where
  "multi_cell L w h txt d =
     (let it = MultiCell w h txt (font_family d) (font_size_pt d)
      in d\<lparr>page := page d + L d it, drawn := drawn d @ [it]\<rparr>)"

subsection \<open>Files and failures\<close>

text \<open>
  A file is seen by the program as UTF-8 text, as a font, or as a written document;
  \<open>OtherFile\<close> is any other content. \<open>writable\<close> says which paths can be opened for
  writing. The four failures are the ones the pipeline can raise:
  \<^verbatim>\<open>open\<close> on a missing input (\<open>FileAccessError\<close>), \<^verbatim>\<open>read\<close> on bytes that are
  not UTF-8 (\<open>DecodingError\<close>), \<^verbatim>\<open>add_font\<close> on a missing font file
  (\<open>FontLoadError\<close>), \<^verbatim>\<open>output\<close> on a path that cannot be written (\<open>RenderError\<close>).
\<close>

datatype content = TextFile str | FontFile | PdfFile pdf | OtherFile

datatype error = FileAccessError | DecodingError | FontLoadError | RenderError

record world =
  files :: "string \<rightharpoonup> content"
  writable :: "string \<Rightarrow> bool"
  stdout :: "str list"

definition read_markdown_file :: "string \<Rightarrow> world \<Rightarrow> error + str" where
  "read_markdown_file file_path w =
     (case files w file_path of
        None \<Rightarrow> Inl FileAccessError
      | Some (TextFile s) \<Rightarrow> Inr s
      | Some _ \<Rightarrow> Inl DecodingError)"

definition convert_markdown_to_html :: "(str \<Rightarrow> str) \<Rightarrow> str \<Rightarrow> str" where
  "convert_markdown_to_html md markdown_content = md markdown_content"

definition font_file :: string where
  "font_file = ''/System/Library/Fonts/Supplemental/Arial Unicode.ttf''"

text \<open>\<^verbatim>\<open>PDF()\<close>: the constructor of the subclass, \<^verbatim>\<open>super().__init__()\<close> followed by
  \<^verbatim>\<open>add_font\<close>, which fails when the font file is not there.\<close>

definition PDF :: "world \<Rightarrow> error + pdf" where
  "PDF w =
     (case files w font_file of
        Some FontFile \<Rightarrow> Inr FPDF
      | _ \<Rightarrow> Inl FontLoadError)"

text \<open>\<^verbatim>\<open>pdf.output(path)\<close>: the one call that touches the destination.\<close>

definition pdf_output :: "pdf \<Rightarrow> string \<Rightarrow> world \<Rightarrow> (error + unit) \<times> world" where
  "pdf_output d path w =
     (if writable w path then (Inr (), w\<lparr>files := (files w)(path \<mapsto> PdfFile d)\<rparr>)
      else (Inl RenderError, w))"

subsection \<open>create\_pdf\<close>

text \<open>The string literal of line 44, code point for code point as the source file stores
  it: U+00E2, U+20AC, U+00A2.\<close>

definition bullet :: str where
  "bullet = [226, 8364, 162]"

text \<open>The body of the \<^verbatim>\<open>for\<close> loop, lines 30 to 50. A node that is not a tag has no
  name that any branch accepts.\<close>

fun process_element :: "layout \<Rightarrow> node \<Rightarrow> pdf \<Rightarrow> pdf" where
  "process_element L (Tag name cs) d =
     (if name \<in> set [''h1'', ''h2'', ''h3''] then
        multi_cell L 0 10 (strip (get_text (Tag name cs)))
          (ln 10
            (set_font ''DejaVu''
               (if name = ''h1'' then 16 else if name = ''h2'' then 14 else 12) d))
      else if name = ''p'' then
        multi_cell L 0 10 (strip (get_text (Tag name cs)))
          (ln 5 (set_font ''DejaVu'' 12 d))
      else if name = ''li'' then
        multi_cell L 0 10 (strip (get_text (Tag name cs)))
          (cell L 5 10 bullet
            (ln 2 (set_font ''DejaVu'' 12 d)))
      else if name \<in> set [''code'', ''pre''] then
        multi_cell L 0 8 (strip (get_text (Tag name cs)))
          (ln 5 (set_font ''DejaVu'' 10 d))
      else d)"
| "process_element L (NavigableString s) d = d"
| "process_element L (Comment s) d = d"

definition allow_list :: "string list" where
  "allow_list = [''h1'', ''h2'', ''h3'', ''p'', ''li'', ''code'', ''pre'']"

text \<open>Lines 20 to 50: the document as it stands when \<^verbatim>\<open>pdf.output\<close> is reached.\<close>

definition build_pdf :: "(str \<Rightarrow> node) \<Rightarrow> layout \<Rightarrow> str \<Rightarrow> pdf \<Rightarrow> pdf" where
  "build_pdf parse_html L html_content d0 =
     (let d1 = add_page d0;
          d2 = set_font ''DejaVu'' 12 d1;
          soup = parse_html html_content
      in fold (process_element L) (find_all allow_list soup) d2)"

definition create_pdf ::
  "(str \<Rightarrow> node) \<Rightarrow> layout \<Rightarrow> str \<Rightarrow> string \<Rightarrow> world \<Rightarrow> (error + unit) \<times> world" where
  "create_pdf parse_html L html_content output_path w =
     (case PDF w of
        Inl e \<Rightarrow> (Inl e, w)
      | Inr d0 \<Rightarrow> pdf_output (build_pdf parse_html L html_content d0) output_path w)"

subsection \<open>main\<close>

definition input_file :: string where
  "input_file = ''Project_Description.txt''"

definition output_file :: string where
  "output_file = ''project_description.pdf''"

definition main ::
  "(str \<Rightarrow> str) \<Rightarrow> (str \<Rightarrow> node) \<Rightarrow> layout \<Rightarrow> world \<Rightarrow> (error + unit) \<times> world" where
  "main md parse_html L w =
     (case read_markdown_file input_file w of
        Inl e \<Rightarrow> (Inl e, w)
      | Inr markdown_content \<Rightarrow>
          (let html_content = convert_markdown_to_html md markdown_content
           in case create_pdf parse_html L html_content output_file w of
                (Inl e, w') \<Rightarrow> (Inl e, w')
              | (Inr u, w') \<Rightarrow>
                  (Inr u, w'\<lparr>stdout := stdout w' @
                     [ascii ''PDF generated successfully: '' @ ascii output_file]\<rparr>)))"

section \<open>The vocabulary of the specification\<close>

subsection \<open>Element kinds and the per-kind tables\<close>

text \<open>
  The specification speaks of element records \<open>{kind, text}\<close> where the code has tag
  names. The seven kinds, the tag each one stands for, and the tables of font size and
  vertical spacing are written here as the specification gives them. \<open>line_height\<close> is
  the cell height the code passes to \<^verbatim>\<open>multi_cell\<close>.
\<close>

datatype kind = H1 | H2 | H3 | Paragraph | ListItem | InlineCode | CodeBlock

definition classify :: "string \<Rightarrow> kind option" where
  "classify n =
     (if n = ''h1'' then Some H1 else if n = ''h2'' then Some H2
      else if n = ''h3'' then Some H3 else if n = ''p'' then Some Paragraph
      else if n = ''li'' then Some ListItem else if n = ''code'' then Some InlineCode
      else if n = ''pre'' then Some CodeBlock else None)"

fun font_size :: "kind \<Rightarrow> nat" where
  "font_size H1 = 16"
| "font_size H2 = 14"
| "font_size H3 = 12"
| "font_size Paragraph = 12"
| "font_size ListItem = 12"
| "font_size InlineCode = 10"
| "font_size CodeBlock = 10"

fun spacing :: "kind \<Rightarrow> nat" where
  "spacing H1 = 10"
| "spacing H2 = 10"
| "spacing H3 = 10"
| "spacing Paragraph = 5"
| "spacing ListItem = 2"
| "spacing InlineCode = 5"
| "spacing CodeBlock = 5"

fun line_height :: "kind \<Rightarrow> nat" where
  "line_height InlineCode = 8"
| "line_height CodeBlock = 8"
| "line_height k = 10"

text \<open>The record of one node: its kind and its trimmed text, when its tag has a kind.\<close>

fun element_record :: "node \<Rightarrow> (kind \<times> str) option" where
  "element_record (Tag n cs) =
     map_option (\<lambda>k. (k, strip (get_text (Tag n cs)))) (classify n)"
| "element_record (NavigableString s) = None"
| "element_record (Comment s) = None"

text \<open>What the emitter draws for one record: the spacing, then the text block, which for a
  list item starts with the bullet cell.\<close>

fun text_block :: "kind \<times> str \<Rightarrow> item list" where
  "text_block (k, t) =
     (if k = ListItem then [Cell 5 10 bullet ''DejaVu'' (font_size k)] else []) @
     [MultiCell 0 (line_height k) t ''DejaVu'' (font_size k)]"

fun emit :: "kind \<times> str \<Rightarrow> item list" where
  "emit (k, t) = Ln (spacing k) # text_block (k, t)"

subsection \<open>Document order\<close>

text \<open>
  A position is the path of child indices from the root to a node. Document order is the
  lexicographic order on positions in which a node comes before its descendants, which is
  the order \<open><\<close> on lists. \<open>positions\<close> lists the positions of all nodes below the root;
  \<open>walk\<close> reads the records off the tree in that order.
\<close>

fun node_at :: "node \<Rightarrow> nat list \<Rightarrow> node option" where
  "node_at t [] = Some t"
| "node_at (Tag n cs) (i # p) = (if i < length cs then node_at (cs ! i) p else None)"
| "node_at (NavigableString s) (i # p) = None"
| "node_at (Comment s) (i # p) = None"

fun positions :: "node \<Rightarrow> nat list list"
  and positions_from :: "nat \<Rightarrow> node list \<Rightarrow> nat list list" where
  "positions (Tag n cs) = positions_from 0 cs"
| "positions (NavigableString s) = []"
| "positions (Comment s) = []"
| "positions_from i [] = []"
| "positions_from i (c # cs) =
     ([i] # map ((#) i) (positions c)) @ positions_from (Suc i) cs"

definition element_at :: "node \<Rightarrow> nat list \<Rightarrow> (kind \<times> str) option" where
  "element_at soup p = (case node_at soup p of None \<Rightarrow> None | Some e \<Rightarrow> element_record e)"

definition walk :: "node \<Rightarrow> (kind \<times> str) list" where
  "walk soup = List.map_filter (element_at soup) (positions soup)"

subsection \<open>Reading a drawn document\<close>

text \<open>
  \<open>multi_cells\<close>: the text blocks in the order written, each with the font it was written
  in. \<open>gaps\<close>: for each text block, the vertical space inserted since the previous one.
  \<open>prefixes\<close>: for each text block, the cell drawn immediately before it, if there is one.
  \<open>cells\<close>: the single cells drawn. \<open>fonts\<close>: the font of every cell and text block.
\<close>

fun multi_cells :: "item list \<Rightarrow> (str \<times> string \<times> nat) list" where
  "multi_cells [] = []"
| "multi_cells (Ln h # its) = multi_cells its"
| "multi_cells (Cell w h t f s # its) = multi_cells its"
| "multi_cells (MultiCell w h t f s # its) = (t, f, s) # multi_cells its"

fun gaps :: "nat \<Rightarrow> item list \<Rightarrow> (nat \<times> str) list" where
  "gaps acc [] = []"
| "gaps acc (Ln h # its) = gaps (acc + h) its"
| "gaps acc (Cell w h t f s # its) = gaps acc its"
| "gaps acc (MultiCell w h t f s # its) = (acc, t) # gaps 0 its"

fun prefixes :: "(nat \<times> str) option \<Rightarrow> item list \<Rightarrow> ((nat \<times> str) option \<times> str) list" where
  "prefixes prev [] = []"
| "prefixes prev (Ln h # its) = prefixes None its"
| "prefixes prev (Cell w h t f s # its) = prefixes (Some (w, t)) its"
| "prefixes prev (MultiCell w h t f s # its) = (prev, t) # prefixes None its"

fun cells :: "item list \<Rightarrow> (nat \<times> str) list" where
  "cells [] = []"
| "cells (Ln h # its) = cells its"
| "cells (Cell w h t f s # its) = (w, t) # cells its"
| "cells (MultiCell w h t f s # its) = cells its"

fun fonts :: "item list \<Rightarrow> (string \<times> nat) list" where
  "fonts [] = []"
| "fonts (Ln h # its) = fonts its"
| "fonts (Cell w h t f s # its) = (f, s) # fonts its"
| "fonts (MultiCell w h t f s # its) = (f, s) # fonts its"

subsection \<open>Concrete inputs\<close>

text \<open>
  Stand-ins for the three libraries on fixed inputs: a layout that never breaks a page, a
  parser that returns a given tree, a renderer that returns a given HTML string. The
  example is the scenario of the specification with the HTML that the Markdown library
  renders for it and the tree that the parser builds from that HTML.
\<close>

definition no_page_breaks :: layout where
  "no_page_breaks d it = 0"

definition parse_as :: "node \<Rightarrow> str \<Rightarrow> node" where
  "parse_as soup html = soup"

definition render_as :: "str \<Rightarrow> str \<Rightarrow> str" where
  "render_as html markdown_content = html"

definition example_markdown :: str where
  "example_markdown =
     ascii ''# Title\<newline>\<newline>Some text.\<newline>\<newline>- item one\<newline>- item two\<newline>''"

definition example_html :: str where
  "example_html =
     ascii ''<h1>Title</h1>\<newline><p>Some text.</p>\<newline><ul>\<newline><li>item one</li>\<newline><li>item two</li>\<newline></ul>''"

definition example_soup :: node where
  "example_soup = Tag ''[document]''
     [Tag ''h1'' [NavigableString (ascii ''Title'')],
      NavigableString (ascii ''\<newline>''),
      Tag ''p'' [NavigableString (ascii ''Some text.'')],
      NavigableString (ascii ''\<newline>''),
      Tag ''ul''
        [NavigableString (ascii ''\<newline>''),
         Tag ''li'' [NavigableString (ascii ''item one'')],
         NavigableString (ascii ''\<newline>''),
         Tag ''li'' [NavigableString (ascii ''item two'')],
         NavigableString (ascii ''\<newline>'')]]"

definition code_block_soup :: node where
  "code_block_soup = Tag ''[document]''
     [Tag ''pre'' [Tag ''code'' [NavigableString (ascii ''print(1)\<newline>'')]]]"

definition headings_soup :: node where
  "headings_soup = Tag ''[document]''
     [Tag ''h3'' [NavigableString (ascii ''c'')],
      Tag ''h1'' [NavigableString (ascii ''a'')],
      Tag ''h2'' [NavigableString (ascii ''b'')]]"

definition empty_soup :: node where
  "empty_soup = Tag ''[document]'' []"

definition empty_world :: world where
  "empty_world = \<lparr>files = Map.empty, writable = (\<lambda>p. True), stdout = []\<rparr>"

definition sample_world :: "str \<Rightarrow> world" where
  "sample_world s =
     \<lparr>files = [input_file \<mapsto> TextFile s, font_file \<mapsto> FontFile],
      writable = (\<lambda>p. True), stdout = []\<rparr>"

definition mixed_soup :: node where
  "mixed_soup = Tag ''[document]''
     [Tag ''div''
        [NavigableString (ascii ''skipped''),
         Tag ''p'' [NavigableString (ascii '' a ''), Tag ''em'' [NavigableString (ascii ''b'')]],
         Comment (ascii ''c'')]]"

definition list_soup :: node where
  "list_soup = Tag ''[document]''
     [Tag ''p'' [NavigableString (ascii ''x'')],
      Tag ''ul'' [Tag ''li'' [NavigableString (ascii ''y'')]],
      Tag ''pre'' [NavigableString (ascii ''z'')]]"

definition stale_font :: pdf where
  "stale_font = \<lparr>font_family = ''Courier'', font_size_pt = 99, page = 1, drawn = []\<rparr>"

section \<open>Properties\<close>

subsection \<open>What one pass of the loop draws\<close>

lemma drawn_process_element:
  "drawn (process_element L e d) =
   drawn d @ (case element_record e of None \<Rightarrow> [] | Some r \<Rightarrow> emit r)"
  by (cases e) (simp_all add: classify_def multi_cell_def cell_def ln_def set_font_def Let_def)

lemma drawn_fold_process_element:
  "drawn (fold (process_element L) es d) =
   drawn d @ concat (map emit (List.map_filter element_record es))"
proof (induction es arbitrary: d)
  case Nil
  show ?case by simp
next
  case (Cons e es)
  show ?case
    by (cases "element_record e") (simp_all add: Cons.IH drawn_process_element)
qed

lemma page_process_element: "page d \<le> page (process_element L e d)"
  by (cases e) (simp_all add: multi_cell_def cell_def ln_def set_font_def Let_def)

lemma page_fold_process_element: "page d \<le> page (fold (process_element L) es d)"
proof (induction es arbitrary: d)
  case Nil
  show ?case by simp
next
  case (Cons e es)
  have "page d \<le> page (process_element L e d)"
    by (rule page_process_element)
  also have "\<dots> \<le> page (fold (process_element L) es (process_element L e d))"
    by (rule Cons.IH)
  finally show ?case by simp
qed

lemma classify_allow_list: "classify n = None \<longleftrightarrow> n \<notin> set allow_list"
  by (simp add: classify_def allow_list_def)

subsection \<open>Positions enumerate the descendants in document order\<close>

lemma node_at_positions_aux:
  "map (node_at t) (positions t) = map Some (descendants t)"
  "\<forall>n pre. length pre = i \<longrightarrow>
     map (node_at (Tag n (pre @ cs))) (positions_from i cs) =
     map Some (concat (map (\<lambda>c. c # descendants c) cs))"
proof (induction t and i cs rule: positions_positions_from.induct)
  case (1 n cs)
  have "map (node_at (Tag n ([] @ cs))) (positions_from 0 cs) =
     map Some (concat (map (\<lambda>c. c # descendants c) cs))"
    using 1 by blast
  then show ?case by simp
next
  case (5 i c cs)
  show ?case
  proof (intro allI impI)
    fix n and pre :: "node list" assume len: "length pre = i"
    have nth: "(pre @ c # cs) ! i = c" "i < length (pre @ c # cs)"
      using len by (auto simp: nth_append)
    have a: "node_at (Tag n (pre @ c # cs)) [i] = Some c"
      using nth by simp
    have "map (node_at (Tag n (pre @ c # cs))) (map ((#) i) (positions c)) =
          map (node_at c) (positions c)"
      using nth by (simp add: comp_def)
    then have b: "map (node_at (Tag n (pre @ c # cs))) (map ((#) i) (positions c)) =
          map Some (descendants c)"
      using "5.IH"(1) by simp
    have "length (pre @ [c]) = Suc i" using len by simp
    then have "map (node_at (Tag n ((pre @ [c]) @ cs))) (positions_from (Suc i) cs) =
             map Some (concat (map (\<lambda>c. c # descendants c) cs))"
      using "5.IH"(2) by blast
    then have c: "map (node_at (Tag n (pre @ c # cs))) (positions_from (Suc i) cs) =
             map Some (concat (map (\<lambda>c. c # descendants c) cs))"
      by simp
    show "map (node_at (Tag n (pre @ c # cs))) (positions_from i (c # cs)) =
          map Some (concat (map (\<lambda>c. c # descendants c) (c # cs)))"
      using a b c by (simp del: node_at.simps)
  qed
qed simp_all

lemma node_at_positions: "map (node_at t) (positions t) = map Some (descendants t)"
  by (rule node_at_positions_aux(1))

lemma positions_nonempty_aux:
  "[] \<notin> set (positions t)"
  "[] \<notin> set (positions_from i cs)"
  by (induction t and i cs rule: positions_positions_from.induct) auto

lemma positions_sorted_aux:
  "sorted_wrt (<) (positions t)"
  "sorted_wrt (<) (positions_from i cs) \<and>
   (\<forall>p \<in> set (positions_from i cs). \<exists>j q. p = j # q \<and> i \<le> j)"
proof (induction t and i cs rule: positions_positions_from.induct)
  case (1 n cs)
  then show ?case by simp
next
  case (5 i c cs)
  have s0: "sorted_wrt (<) (map ((#) i) (positions c))"
    using "5.IH"(1) by (simp add: sorted_wrt_map)
  have "\<forall>x \<in> set (positions c). [] < x"
  proof
    fix x assume "x \<in> set (positions c)"
    then have "x \<noteq> []" using positions_nonempty_aux(1) [of c] by auto
    then obtain a r where "x = a # r" by (cases x) auto
    then show "[] < x" by simp
  qed
  then have s1: "sorted_wrt (<) ([i] # map ((#) i) (positions c))"
    using s0 by auto
  have s3: "\<forall>p \<in> set (positions_from (Suc i) cs). \<exists>j q. p = j # q \<and> Suc i \<le> j"
    using "5.IH"(2) by blast
  have s2: "\<forall>x \<in> set ([i] # map ((#) i) (positions c)).
              \<forall>y \<in> set (positions_from (Suc i) cs). x < y"
  proof (intro ballI)
    fix x y
    assume x: "x \<in> set ([i] # map ((#) i) (positions c))"
      and y: "y \<in> set (positions_from (Suc i) cs)"
    obtain q where xq: "x = i # q" using x by auto
    obtain j r where yr: "y = j # r" "Suc i \<le> j" using s3 y by blast
    show "x < y" using xq yr by simp
  qed
  have s4: "\<forall>p \<in> set (positions_from i (c # cs)). \<exists>j q. p = j # q \<and> i \<le> j"
  proof
    fix p assume "p \<in> set (positions_from i (c # cs))"
    then consider "p \<in> set ([i] # map ((#) i) (positions c))"
      | "p \<in> set (positions_from (Suc i) cs)"
      by auto
    then show "\<exists>j q. p = j # q \<and> i \<le> j"
    proof cases
      case 1
      then show ?thesis by auto
    next
      case 2
      then obtain j r where "p = j # r" "Suc i \<le> j" using s3 by blast
      then show ?thesis by auto
    qed
  qed
  have "sorted_wrt (<) (([i] # map ((#) i) (positions c)) @ positions_from (Suc i) cs)"
    unfolding sorted_wrt_append using s1 s2 "5.IH"(2) by blast
  then have "sorted_wrt (<) (positions_from i (c # cs))"
    by (simp only: positions_from.simps)
  then show ?case using s4 by blast
qed simp_all

lemma positions_sorted: "sorted_wrt (<) (positions t)"
  by (rule positions_sorted_aux(1))

lemma node_at_leaf:
  "node_at (NavigableString s) p \<noteq> None \<Longrightarrow> p = []"
  "node_at (Comment s) p \<noteq> None \<Longrightarrow> p = []"
  by (cases p; simp)+

lemma paths_below_root:
  "{p. \<exists>j q. p = j # q \<and> 0 \<le> j \<and> node_at (Tag n ([] @ cs)) p \<noteq> None} =
   {p. p \<noteq> [] \<and> node_at (Tag n cs) p \<noteq> None}"
proof (rule set_eqI)
  fix p :: "nat list"
  show "p \<in> {p. \<exists>j q. p = j # q \<and> 0 \<le> j \<and> node_at (Tag n ([] @ cs)) p \<noteq> None} \<longleftrightarrow>
        p \<in> {p. p \<noteq> [] \<and> node_at (Tag n cs) p \<noteq> None}"
    by (cases p) simp_all
qed

lemma positions_from_Nil_complete:
  assumes len: "length pre = i"
  shows "set (positions_from i []) =
      {p. \<exists>j q. p = j # q \<and> i \<le> j \<and> node_at (Tag n (pre @ [])) p \<noteq> None}"
proof -
  have "\<And>p. \<not> (\<exists>j q. p = j # q \<and> i \<le> j \<and> node_at (Tag n (pre @ [])) p \<noteq> None)"
  proof
    fix p assume "\<exists>j q. p = j # q \<and> i \<le> j \<and> node_at (Tag n (pre @ [])) p \<noteq> None"
    then obtain j q where "p = j # q" "i \<le> j" "node_at (Tag n (pre @ [])) p \<noteq> None"
      by blast
    then show False using len by simp
  qed
  then show ?thesis by simp
qed

lemma positions_from_Cons_complete:
  assumes IH1: "set (positions c) = {p. p \<noteq> [] \<and> node_at c p \<noteq> None}"
    and IH2: "set (positions_from (Suc i) cs) =
        {p. \<exists>j q. p = j # q \<and> Suc i \<le> j \<and> node_at (Tag n ((pre @ [c]) @ cs)) p \<noteq> None}"
    and len: "length pre = i"
  shows "set (positions_from i (c # cs)) =
        {p. \<exists>j q. p = j # q \<and> i \<le> j \<and> node_at (Tag n (pre @ c # cs)) p \<noteq> None}"
proof -
  let ?t = "Tag n (pre @ c # cs)"
  have nth: "(pre @ c # cs) ! i = c" "i < length (pre @ c # cs)"
    using len by (auto simp: nth_append)
  have tl: "set (positions_from (Suc i) cs) =
      {p. \<exists>j q. p = j # q \<and> Suc i \<le> j \<and> node_at ?t p \<noteq> None}"
    using IH2 by simp
  have at: "\<And>q. node_at ?t (i # q) = node_at c q"
    using nth by simp
  have hd: "set ([i] # map ((#) i) (positions c)) =
            {p. \<exists>q. p = i # q \<and> node_at ?t p \<noteq> None}"
  proof (rule set_eqI)
    fix p
    show "p \<in> set ([i] # map ((#) i) (positions c)) \<longleftrightarrow>
          p \<in> {p. \<exists>q. p = i # q \<and> node_at ?t p \<noteq> None}"
    proof
      assume "p \<in> set ([i] # map ((#) i) (positions c))"
      then consider "p = [i]" | q where "p = i # q" "q \<in> set (positions c)" by auto
      then show "p \<in> {p. \<exists>q. p = i # q \<and> node_at ?t p \<noteq> None}"
      proof cases
        case 1
        then show ?thesis using at [of "[]"] by simp
      next
        case 2
        then have "node_at c q \<noteq> None" using IH1 by simp
        then show ?thesis using 2 at [of q] by simp
      qed
    next
      assume "p \<in> {p. \<exists>q. p = i # q \<and> node_at ?t p \<noteq> None}"
      then obtain q where q: "p = i # q" "node_at ?t p \<noteq> None" by blast
      then have nn: "node_at c q \<noteq> None" using at [of q] by simp
      show "p \<in> set ([i] # map ((#) i) (positions c))"
      proof (cases "q = []")
        case True
        then show ?thesis using q by simp
      next
        case False
        then have "q \<in> set (positions c)" using nn IH1 by simp
        then show ?thesis using q by simp
      qed
    qed
  qed
  have le: "\<And>j. i \<le> j \<longleftrightarrow> j = i \<or> Suc i \<le> j" by auto
  have split: "{p. \<exists>j q. p = j # q \<and> i \<le> j \<and> node_at ?t p \<noteq> None} =
               {p. \<exists>q. p = i # q \<and> node_at ?t p \<noteq> None} \<union>
               {p. \<exists>j q. p = j # q \<and> Suc i \<le> j \<and> node_at ?t p \<noteq> None}"
    unfolding le by blast
  have "set (positions_from i (c # cs)) =
        set ([i] # map ((#) i) (positions c)) \<union> set (positions_from (Suc i) cs)"
    by (simp only: positions_from.simps set_append)
  then show ?thesis
    unfolding split hd tl .
qed

lemma positions_complete_aux:
  "set (positions t) = {p. p \<noteq> [] \<and> node_at t p \<noteq> None}"
  "\<forall>n pre. length pre = i \<longrightarrow>
     set (positions_from i cs) =
     {p. \<exists>j q. p = j # q \<and> i \<le> j \<and> node_at (Tag n (pre @ cs)) p \<noteq> None}"
proof (induction t and i cs rule: positions_positions_from.induct)
  case (1 n cs)
  have "set (positions_from 0 cs) =
        {p. \<exists>j q. p = j # q \<and> 0 \<le> j \<and> node_at (Tag n ([] @ cs)) p \<noteq> None}"
    by (rule 1 [rule_format, OF list.size(3)])
  then show ?case unfolding paths_below_root by simp
next
  case (2 s)
  have "{p. p \<noteq> [] \<and> node_at (NavigableString s) p \<noteq> None} = {}"
    using node_at_leaf(1) by blast
  then show ?case by simp
next
  case (3 s)
  have "{p. p \<noteq> [] \<and> node_at (Comment s) p \<noteq> None} = {}"
    using node_at_leaf(2) by blast
  then show ?case by simp
next
  case (4 i)
  show ?case by (intro allI impI) (rule positions_from_Nil_complete)
next
  case (5 i c cs)
  show ?case
  proof (intro allI impI)
    fix n and pre :: "node list" assume len: "length pre = i"
    have len': "length (pre @ [c]) = Suc i" using len by simp
    have ih2: "set (positions_from (Suc i) cs) =
        {p. \<exists>j q. p = j # q \<and> Suc i \<le> j \<and> node_at (Tag n ((pre @ [c]) @ cs)) p \<noteq> None}"
      by (rule "5.IH"(2) [rule_format, OF len'])
    show "set (positions_from i (c # cs)) =
        {p. \<exists>j q. p = j # q \<and> i \<le> j \<and> node_at (Tag n (pre @ c # cs)) p \<noteq> None}"
      by (rule positions_from_Cons_complete [OF "5.IH"(1) ih2 len])
  qed
qed

lemma positions_complete: "set (positions t) = {p. p \<noteq> [] \<and> node_at t p \<noteq> None}"
  by (rule positions_complete_aux(1))

subsection \<open>The loop draws the walk\<close>

lemma map_filter_through:
  "map f xs = map Some ys \<Longrightarrow>
   List.map_filter (\<lambda>x. case f x of None \<Rightarrow> None | Some e \<Rightarrow> g e) xs = List.map_filter g ys"
proof (induction xs arbitrary: ys)
  case Nil
  then show ?case by simp
next
  case (Cons x xs)
  then obtain y ys' where ys: "ys = y # ys'" "f x = Some y" "map f xs = map Some ys'"
    by (cases ys) auto
  then show ?case using Cons.IH [of ys'] by (simp split: option.split)
qed

lemma map_filter_filter_named:
  "List.map_filter element_record (filter (named allow_list) es) =
   List.map_filter element_record es"
proof (induction es)
  case Nil
  show ?case by simp
next
  case (Cons e es)
  have "\<not> named allow_list e \<Longrightarrow> element_record e = None"
    by (cases e) (auto simp: allow_list_def classify_def)
  then show ?case
    using Cons.IH by (cases "named allow_list e") (simp_all split: option.split)
qed

lemma walk_descendants: "walk soup = List.map_filter element_record (descendants soup)"
  unfolding walk_def element_at_def
  by (rule map_filter_through) (rule node_at_positions)

lemma records_find_all:
  "List.map_filter element_record (find_all allow_list soup) = walk soup"
  by (simp add: walk_descendants find_all_def map_filter_filter_named)

lemma drawn_build_pdf:
  "drawn (build_pdf parse_html L html d0) =
   drawn d0 @ concat (map emit (walk (parse_html html)))"
  by (simp add: build_pdf_def Let_def drawn_fold_process_element records_find_all
      add_page_def set_font_def)

lemma page_build_pdf: "page d0 + 1 \<le> page (build_pdf parse_html L html d0)"
proof -
  have "page (set_font ''DejaVu'' 12 (add_page d0)) = page d0 + 1"
    by (simp add: add_page_def set_font_def)
  then show ?thesis
    unfolding build_pdf_def Let_def
    using page_fold_process_element
      [of "set_font ''DejaVu'' 12 (add_page d0)" L "find_all allow_list (parse_html html)"]
    by simp
qed

lemma multi_cells_append: "multi_cells (xs @ ys) = multi_cells xs @ multi_cells ys"
  by (induction xs rule: multi_cells.induct) simp_all

lemma multi_cells_emit:
  "multi_cells (concat (map emit rs)) = map (\<lambda>(k, t). (t, ''DejaVu'', font_size k)) rs"
  by (induction rs) (auto simp: multi_cells_append)

lemma fonts_append: "fonts (xs @ ys) = fonts xs @ fonts ys"
  by (induction xs rule: fonts.induct) simp_all

lemma cells_append: "cells (xs @ ys) = cells xs @ cells ys"
  by (induction xs rule: cells.induct) simp_all

lemma gaps_emit:
  "gaps 0 (concat (map emit rs)) = map (\<lambda>(k, t). (spacing k, t)) rs"
  by (induction rs) auto

lemma prefixes_emit:
  "prefixes None (concat (map emit rs)) =
   map (\<lambda>(k, t). (if k = ListItem then Some (5, bullet) else None, t)) rs"
  by (induction rs) auto

lemma cells_emit:
  "cells (concat (map emit rs)) =
   map (\<lambda>r. (5, bullet)) (filter (\<lambda>(k, t). k = ListItem) rs)"
  by (induction rs) (auto simp: cells_append)

lemma drawn_FPDF: "drawn FPDF = []"
  by (simp add: FPDF_def)

subsection \<open>Nested elements and counting\<close>

lemma fonts_emit:
  "fonts (concat (map emit rs)) =
   concat (map (\<lambda>(k, t). replicate (if k = ListItem then 2 else 1) (''DejaVu'', font_size k)) rs)"
  by (induction rs) (auto simp: fonts_append numeral_2_eq_2)

lemma descendants_at:
  "node_at t p = Some e \<Longrightarrow> p \<noteq> [] \<Longrightarrow> \<exists>xs ys. descendants t = xs @ e # descendants e @ ys"
proof (induction p arbitrary: t)
  case Nil
  then show ?case by simp
next
  case (Cons i q)
  then obtain n cs where t: "t = Tag n cs" "i < length cs" "node_at (cs ! i) q = Some e"
    by (cases t) (auto split: if_splits)
  let ?c = "cs ! i"
  have cs: "cs = take i cs @ ?c # drop (Suc i) cs"
    using t(2) by (rule id_take_nth_drop)
  have "descendants t = concat (map (\<lambda>c. c # descendants c) (take i cs @ ?c # drop (Suc i) cs))"
    using t(1) cs by simp
  then have d: "descendants t =
      concat (map (\<lambda>c. c # descendants c) (take i cs)) @ ?c # descendants ?c @
      concat (map (\<lambda>c. c # descendants c) (drop (Suc i) cs))"
    by simp
  show ?case
  proof (cases "q = []")
    case True
    then have "e = ?c" using t(3) by simp
    then show ?thesis using d by blast
  next
    case False
    then obtain xs ys where "descendants ?c = xs @ e # descendants e @ ys"
      using Cons.IH [OF t(3)] by blast
    then have "descendants t =
      (concat (map (\<lambda>c. c # descendants c) (take i cs)) @ ?c # xs) @ e # descendants e @
      (ys @ concat (map (\<lambda>c. c # descendants c) (drop (Suc i) cs)))"
      using d by simp
    then show ?thesis by blast
  qed
qed

lemma map_filter_append:
  "List.map_filter f (xs @ ys) = List.map_filter f xs @ List.map_filter f ys"
  by (simp add: List.map_filter_def)

lemma walk_nested_code:
  assumes at: "node_at soup p = Some (Tag n [Tag ''code'' cs])" and p: "p \<noteq> []"
    and k: "classify n = Some k"
  shows "\<exists>A B. walk soup =
     A @ [(k, strip (get_text (Tag ''code'' cs))), (InlineCode, strip (get_text (Tag ''code'' cs)))] @ B"
proof -
  let ?code = "Tag ''code'' cs"
  let ?e = "Tag n [?code]"
  obtain xs ys where d: "descendants soup = xs @ ?e # descendants ?e @ ys"
    using descendants_at [OF at p] by blast
  have de: "descendants ?e = ?code # descendants ?code"
    by simp
  have gt: "get_text ?e = get_text ?code"
    by simp
  have re: "element_record ?e = Some (k, strip (get_text ?code))"
    using k gt by simp
  have rc: "element_record ?code = Some (InlineCode, strip (get_text ?code))"
    by (simp add: classify_def)
  have "walk soup = List.map_filter element_record xs @
      [(k, strip (get_text ?code)), (InlineCode, strip (get_text ?code))] @
      (List.map_filter element_record (descendants ?code) @ List.map_filter element_record ys)"
    unfolding walk_descendants d de using re rc
    by (simp add: map_filter_append del: element_record.simps descendants.simps get_text.simps)
  then show ?thesis by blast
qed

lemma length_walk: "length (walk soup) = card {p. p \<noteq> [] \<and> element_at soup p \<noteq> None}"
proof -
  have dist: "distinct (positions soup)"
    using positions_sorted [of soup] strict_sorted_iff by blast
  have "length (walk soup) = length (filter (\<lambda>p. element_at soup p \<noteq> None) (positions soup))"
    by (simp add: walk_def List.map_filter_def)
  also have "\<dots> = card (set (filter (\<lambda>p. element_at soup p \<noteq> None) (positions soup)))"
    by (rule distinct_card [symmetric, OF distinct_filter [OF dist]])
  also have "set (filter (\<lambda>p. element_at soup p \<noteq> None) (positions soup)) =
             {p. p \<noteq> [] \<and> element_at soup p \<noteq> None}"
    by (auto simp: positions_complete element_at_def split: option.splits)
  finally show ?thesis .
qed

subsection \<open>Unfolding sets for concrete inputs\<close>

lemmas fpdf_defs = FPDF_def add_page_def set_font_def ln_def cell_def multi_cell_def
  no_page_breaks_def

lemmas text_defs = strip_def isspace_def ascii_def

lemmas walk_defs = walk_def element_at_def classify_def List.map_filter_def

subsection \<open>The run as a whole\<close>

lemma create_pdf_cases:
  "create_pdf parse_html L html out w =
     (if files w font_file = Some FontFile then
        (if writable w out
         then (Inr (), w\<lparr>files := (files w)(out \<mapsto> PdfFile (build_pdf parse_html L html FPDF))\<rparr>)
         else (Inl RenderError, w))
      else (Inl FontLoadError, w))"
  by (simp add: create_pdf_def PDF_def pdf_output_def split: option.split content.split)

lemma create_pdf_failure: "create_pdf parse_html L html out w = (Inl e, w') \<Longrightarrow> w' = w"
  by (auto simp: create_pdf_cases split: if_splits)

lemma create_pdf_success:
  "create_pdf parse_html L html out w = (Inr u, w') \<Longrightarrow>
   w' = w\<lparr>files := (files w)(out \<mapsto> PdfFile (build_pdf parse_html L html FPDF))\<rparr>"
  by (auto simp: create_pdf_cases split: if_splits)

lemma main_failure: "main md parse_html L w = (Inl e, w') \<Longrightarrow> w' = w"
proof (cases "read_markdown_file input_file w")
  case (Inl x)
  assume "main md parse_html L w = (Inl e, w')"
  then show ?thesis using Inl by (simp add: main_def)
next
  case (Inr s)
  assume m: "main md parse_html L w = (Inl e, w')"
  obtain r v where c: "create_pdf parse_html L (convert_markdown_to_html md s) output_file w = (r, v)"
    by (cases "create_pdf parse_html L (convert_markdown_to_html md s) output_file w") auto
  show ?thesis
  proof (cases r)
    case (Inl x)
    then have "v = w" using c create_pdf_failure by blast
    then show ?thesis using m Inr c Inl by (simp add: main_def)
  next
    case (Inr u)
    then show ?thesis using m \<open>read_markdown_file input_file w = Inr s\<close> c by (simp add: main_def)
  qed
qed

lemma main_success:
  assumes m: "main md parse_html L w = (Inr u, w')"
  shows "\<exists>s. files w input_file = Some (TextFile s) \<and>
     files w' = (files w)(output_file \<mapsto>
        PdfFile (build_pdf parse_html L (convert_markdown_to_html md s) FPDF))"
proof (cases "read_markdown_file input_file w")
  case (Inl x)
  then show ?thesis using m by (simp add: main_def)
next
  case (Inr s)
  then have f: "files w input_file = Some (TextFile s)"
    by (auto simp: read_markdown_file_def split: option.splits content.splits)
  obtain r v where c: "create_pdf parse_html L (convert_markdown_to_html md s) output_file w = (r, v)"
    by (cases "create_pdf parse_html L (convert_markdown_to_html md s) output_file w") auto
  show ?thesis
  proof (cases r)
    case (Inl x)
    then show ?thesis using m Inr c by (simp add: main_def)
  next
    case r: (Inr u')
    then have "v = w\<lparr>files := (files w)(output_file \<mapsto>
        PdfFile (build_pdf parse_html L (convert_markdown_to_html md s) FPDF))\<rparr>"
      using c create_pdf_success by blast
    moreover have "w' = v\<lparr>stdout := stdout v @
         [ascii ''PDF generated successfully: '' @ ascii output_file]\<rparr>"
      using m Inr c r by (simp add: main_def)
    ultimately show ?thesis using f by simp
  qed
qed

lemma main_succeeds:
  assumes "files w input_file = Some (TextFile s)" "files w font_file = Some FontFile"
    "writable w output_file"
  shows "fst (main md parse_html L w) = Inr ()"
  using assms by (simp add: main_def read_markdown_file_def create_pdf_cases)

section \<open>The claims\<close>

subsection \<open>C1: a code block is written once\<close>

text \<open>
  C1, as stated, fails. \<^verbatim>\<open>find_all\<close> returns every tag whose name is in the list, also
  one that lies inside another such tag. For a \<^verbatim>\<open>pre\<close> wrapping a \<^verbatim>\<open>code\<close> it returns
  both, and the loop writes the same text for each: two blocks at size 10, not one.
\<close>

theorem code_block_text_written_twice:
  "multi_cells (drawn (build_pdf (parse_as code_block_soup) no_page_breaks [] FPDF)) =
     [(ascii ''print(1)'', ''DejaVu'', 10), (ascii ''print(1)'', ''DejaVu'', 10)]"
  by (simp add: build_pdf_def parse_as_def code_block_soup_def find_all_def allow_list_def
      fpdf_defs text_defs)

text \<open>
  C1, amended. Every element occurrence with an allow-listed tag gets exactly one text
  block: the number of text blocks is the number of positions below the root that hold
  such an element. Nesting is not looked at: when an allow-listed element at some
  position has a \<^verbatim>\<open>code\<close> element as its only child, the walk writes two adjacent
  blocks with the same trimmed text, the first at the size of the outer element's kind
  and the second at size 10. With \<^verbatim>\<open>pre\<close> outside this is the fenced code block, with
  \<^verbatim>\<open>p\<close> outside it is a paragraph holding only inline code.
\<close>

theorem one_block_per_element_occurrence:
  "length (multi_cells (drawn (build_pdf parse_html L html FPDF))) =
     card {p. p \<noteq> [] \<and> element_at (parse_html html) p \<noteq> None}
   \<and> (node_at (parse_html html) p = Some (Tag n [Tag ''code'' cs]) \<and> p \<noteq> [] \<and>
        classify n = Some k \<longrightarrow>
       (\<exists>A B. multi_cells (drawn (build_pdf parse_html L html FPDF)) =
          A @ [(strip (get_text (Tag ''code'' cs)), ''DejaVu'', font_size k),
               (strip (get_text (Tag ''code'' cs)), ''DejaVu'', 10)] @ B))"
proof (intro conjI impI)
  show "length (multi_cells (drawn (build_pdf parse_html L html FPDF))) =
     card {p. p \<noteq> [] \<and> element_at (parse_html html) p \<noteq> None}"
    by (simp add: drawn_build_pdf drawn_FPDF multi_cells_emit length_walk)
next
  assume h: "node_at (parse_html html) p = Some (Tag n [Tag ''code'' cs]) \<and> p \<noteq> [] \<and>
        classify n = Some k"
  then obtain A B where w: "walk (parse_html html) =
     A @ [(k, strip (get_text (Tag ''code'' cs))),
          (InlineCode, strip (get_text (Tag ''code'' cs)))] @ B"
    using walk_nested_code [of "parse_html html" p n cs k] by blast
  have "multi_cells (drawn (build_pdf parse_html L html FPDF)) =
      map (\<lambda>(k, t). (t, ''DejaVu'', font_size k)) (walk (parse_html html))"
    by (simp add: drawn_build_pdf drawn_FPDF multi_cells_emit)
  then have "multi_cells (drawn (build_pdf parse_html L html FPDF)) =
      map (\<lambda>(k, t). (t, ''DejaVu'', font_size k)) A @
      [(strip (get_text (Tag ''code'' cs)), ''DejaVu'', font_size k),
       (strip (get_text (Tag ''code'' cs)), ''DejaVu'', 10)] @
      map (\<lambda>(k, t). (t, ''DejaVu'', font_size k)) B"
    unfolding w by (simp del: get_text.simps)
  then show "\<exists>A B. multi_cells (drawn (build_pdf parse_html L html FPDF)) =
          A @ [(strip (get_text (Tag ''code'' cs)), ''DejaVu'', font_size k),
               (strip (get_text (Tag ''code'' cs)), ''DejaVu'', 10)] @ B"
    by blast
qed

theorem one_block_per_element_occurrence_witness:
  "node_at (parse_as code_block_soup []) [0] =
     Some (Tag ''pre'' [Tag ''code'' [NavigableString (ascii ''print(1)\<newline>'')]]) \<and>
   classify ''pre'' = Some CodeBlock \<and>
   card {p. p \<noteq> [] \<and> element_at (parse_as code_block_soup []) p \<noteq> None} = 2 \<and>
   (\<exists>A B. multi_cells (drawn (build_pdf (parse_as code_block_soup) no_page_breaks [] FPDF)) =
      A @ [(ascii ''print(1)'', ''DejaVu'', 10), (ascii ''print(1)'', ''DejaVu'', 10)] @ B)"
proof -
  let ?cs = "[NavigableString (ascii ''print(1)\<newline>'')]"
  have a: "node_at (parse_as code_block_soup []) [0] = Some (Tag ''pre'' [Tag ''code'' ?cs])"
    by (simp add: parse_as_def code_block_soup_def)
  have b: "classify ''pre'' = Some CodeBlock"
    by (simp add: classify_def)
  have c: "strip (get_text (Tag ''code'' ?cs)) = ascii ''print(1)''"
    by (simp add: text_defs)
  have d: "length (multi_cells (drawn (build_pdf (parse_as code_block_soup) no_page_breaks [] FPDF))) = 2"
    by (simp add: build_pdf_def parse_as_def code_block_soup_def find_all_def allow_list_def
      fpdf_defs text_defs)
  note t = one_block_per_element_occurrence
    [of "parse_as code_block_soup" no_page_breaks "[]" "[0]" "''pre''" ?cs CodeBlock]
  have "card {p. p \<noteq> [] \<and> element_at (parse_as code_block_soup []) p \<noteq> None} = 2"
    using t d by simp
  moreover have "\<exists>A B. multi_cells (drawn (build_pdf (parse_as code_block_soup) no_page_breaks [] FPDF)) =
      A @ [(ascii ''print(1)'', ''DejaVu'', 10), (ascii ''print(1)'', ''DejaVu'', 10)] @ B"
    using t a b c by simp
  ultimately show ?thesis using a b by blast
qed

subsection \<open>C2: the scenario with a title, a paragraph and two list items\<close>

text \<open>
  C2. When the Markdown library renders the scenario's input to the HTML of
  \<open>example_html\<close> and the parser builds \<open>example_soup\<close> from it, the elements found
  are the heading, the paragraph and the two list items, in that order, and the document
  holds one block at size 16, one at size 12 and two blocks at size 12, each with a cell
  of width 5 in front. The two cells hold the three code points U+00E2, U+20AC, U+00A2 of
  the literal of line 44, so the document is not the one the scenario describes, whose
  list blocks are prefixed by the bullet U+2022. This is the defect of C6 seen on the
  scenario's input.
\<close>

theorem example_scenario_cells_hold_three_characters:
  assumes "convert_markdown_to_html md example_markdown = example_html"
    and "parse_html example_html = example_soup"
  shows "List.map_filter element_record
       (find_all allow_list (parse_html (convert_markdown_to_html md example_markdown))) =
     [(H1, ascii ''Title''), (Paragraph, ascii ''Some text.''),
      (ListItem, ascii ''item one''), (ListItem, ascii ''item two'')]
   \<and> drawn (build_pdf parse_html L (convert_markdown_to_html md example_markdown) FPDF) =
     [Ln 10, MultiCell 0 10 (ascii ''Title'') ''DejaVu'' 16,
      Ln 5, MultiCell 0 10 (ascii ''Some text.'') ''DejaVu'' 12,
      Ln 2, Cell 5 10 [226, 8364, 162] ''DejaVu'' 12,
      MultiCell 0 10 (ascii ''item one'') ''DejaVu'' 12,
      Ln 2, Cell 5 10 [226, 8364, 162] ''DejaVu'' 12,
      MultiCell 0 10 (ascii ''item two'') ''DejaVu'' 12]
   \<and> drawn (build_pdf parse_html L (convert_markdown_to_html md example_markdown) FPDF) \<noteq>
     [Ln 10, MultiCell 0 10 (ascii ''Title'') ''DejaVu'' 16,
      Ln 5, MultiCell 0 10 (ascii ''Some text.'') ''DejaVu'' 12,
      Ln 2, Cell 5 10 [8226] ''DejaVu'' 12,
      MultiCell 0 10 (ascii ''item one'') ''DejaVu'' 12,
      Ln 2, Cell 5 10 [8226] ''DejaVu'' 12,
      MultiCell 0 10 (ascii ''item two'') ''DejaVu'' 12]"
proof -
  have soup: "parse_html (convert_markdown_to_html md example_markdown) = example_soup"
    using assms by simp
  have found: "find_all allow_list example_soup =
     [Tag ''h1'' [NavigableString (ascii ''Title'')],
      Tag ''p'' [NavigableString (ascii ''Some text.'')],
      Tag ''li'' [NavigableString (ascii ''item one'')],
      Tag ''li'' [NavigableString (ascii ''item two'')]]"
    by (simp add: example_soup_def find_all_def allow_list_def)
  have recs: "List.map_filter element_record (find_all allow_list example_soup) =
     [(H1, ascii ''Title''), (Paragraph, ascii ''Some text.''),
      (ListItem, ascii ''item one''), (ListItem, ascii ''item two'')]"
    unfolding found by (simp add: List.map_filter_def classify_def text_defs)
  have d: "drawn (build_pdf parse_html L (convert_markdown_to_html md example_markdown) FPDF) =
     [Ln 10, MultiCell 0 10 (ascii ''Title'') ''DejaVu'' 16,
      Ln 5, MultiCell 0 10 (ascii ''Some text.'') ''DejaVu'' 12,
      Ln 2, Cell 5 10 [226, 8364, 162] ''DejaVu'' 12,
      MultiCell 0 10 (ascii ''item one'') ''DejaVu'' 12,
      Ln 2, Cell 5 10 [226, 8364, 162] ''DejaVu'' 12,
      MultiCell 0 10 (ascii ''item two'') ''DejaVu'' 12]"
    unfolding build_pdf_def Let_def soup found
    by (simp add: FPDF_def add_page_def set_font_def ln_def cell_def multi_cell_def Let_def
        text_defs bullet_def)
  show ?thesis unfolding d using recs soup by simp
qed

theorem example_scenario_cells_hold_three_characters_witness:
  "convert_markdown_to_html (render_as example_html) example_markdown = example_html \<and>
   parse_as example_soup example_html = example_soup \<and>
   multi_cells (drawn (build_pdf (parse_as example_soup) no_page_breaks
       (convert_markdown_to_html (render_as example_html) example_markdown) FPDF)) =
     [(ascii ''Title'', ''DejaVu'', 16), (ascii ''Some text.'', ''DejaVu'', 12),
      (ascii ''item one'', ''DejaVu'', 12), (ascii ''item two'', ''DejaVu'', 12)] \<and>
   cells (drawn (build_pdf (parse_as example_soup) no_page_breaks
       (convert_markdown_to_html (render_as example_html) example_markdown) FPDF)) =
     [(5, [226, 8364, 162]), (5, [226, 8364, 162])]"
proof -
  have a: "convert_markdown_to_html (render_as example_html) example_markdown = example_html"
    by (simp add: convert_markdown_to_html_def render_as_def)
  have b: "parse_as example_soup example_html = example_soup"
    by (simp add: parse_as_def)
  show ?thesis
    using example_scenario_cells_hold_three_characters
      [of "render_as example_html" "parse_as example_soup" no_page_breaks] a b
    by simp
qed

subsection \<open>C3: the text blocks follow document order\<close>

text \<open>
  C3. The texts of the text blocks written are the trimmed texts of the allow-listed
  elements, read off the tree in document order: \<open>walk\<close> goes through \<open>positions\<close>,
  which is strictly increasing in the order on positions and holds exactly the positions
  of the nodes below the root. A tag has a record exactly when its name is in the list of
  line 29, so the text of any other element reaches the output only inside the flattened
  text of an element that has one.
\<close>

theorem text_blocks_in_document_order:
  "map fst (multi_cells (drawn (build_pdf parse_html L html FPDF))) =
     map snd (walk (parse_html html))
   \<and> sorted_wrt (<) (positions (parse_html html))
   \<and> set (positions (parse_html html)) =
       {p. p \<noteq> [] \<and> node_at (parse_html html) p \<noteq> None}
   \<and> (classify n = None \<longleftrightarrow> n \<notin> set allow_list)"
proof (intro conjI)
  show "map fst (multi_cells (drawn (build_pdf parse_html L html FPDF))) =
     map snd (walk (parse_html html))"
    by (simp add: drawn_build_pdf drawn_FPDF multi_cells_emit comp_def case_prod_beta)
qed (rule positions_sorted positions_complete classify_allow_list)+

theorem text_blocks_in_document_order_witness:
  "map fst (multi_cells (drawn (build_pdf (parse_as mixed_soup) no_page_breaks [] FPDF))) =
     [ascii ''a b'']
   \<and> positions (parse_as mixed_soup []) = [[0], [0, 0], [0, 1], [0, 1, 0], [0, 1, 1], [0, 1, 1, 0], [0, 2]]
   \<and> classify ''div'' = None \<and> classify ''em'' = None"
proof -
  have w: "walk (parse_as mixed_soup []) = [(Paragraph, ascii ''a b'')]"
    by (simp add: parse_as_def mixed_soup_def walk_defs text_defs)
  have p: "positions (parse_as mixed_soup []) =
      [[0], [0, 0], [0, 1], [0, 1, 0], [0, 1, 1], [0, 1, 1, 0], [0, 2]]"
    by (simp add: parse_as_def mixed_soup_def)
  have c: "classify ''div'' = None \<and> classify ''em'' = None"
    by (simp add: classify_def)
  show ?thesis
    using text_blocks_in_document_order [of "parse_as mixed_soup" no_page_breaks "[]" "''div''"] w p c
    by simp
qed

subsection \<open>C4: font size by kind\<close>

text \<open>
  C4. The sizes of the text blocks written are the sizes the table gives for the kinds of
  the elements, in order; the table is H1 = 16, H2 = 14, H3 = 12, Paragraph = 12,
  ListItem = 12 and 10 for both code kinds, so a level-1 heading is larger than a level-2
  heading, which is larger than a level-3 heading.
\<close>

theorem font_size_by_kind:
  "map (\<lambda>(t, f, s). s) (multi_cells (drawn (build_pdf parse_html L html FPDF))) =
     map (\<lambda>(k, t). font_size k) (walk (parse_html html))
   \<and> map font_size [H1, H2, H3, Paragraph, ListItem, InlineCode, CodeBlock] =
       [16, 14, 12, 12, 12, 10, 10]
   \<and> font_size H3 < font_size H2 \<and> font_size H2 < font_size H1"
  by (simp add: drawn_build_pdf drawn_FPDF multi_cells_emit comp_def case_prod_beta)

theorem font_size_by_kind_witness:
  "walk (parse_as headings_soup []) = [(H3, ascii ''c''), (H1, ascii ''a''), (H2, ascii ''b'')]
   \<and> map (\<lambda>(t, f, s). s)
       (multi_cells (drawn (build_pdf (parse_as headings_soup) no_page_breaks [] FPDF))) =
     [12, 16, 14]"
proof -
  have w: "walk (parse_as headings_soup []) = [(H3, ascii ''c''), (H1, ascii ''a''), (H2, ascii ''b'')]"
    by (simp add: parse_as_def headings_soup_def walk_defs text_defs)
  show ?thesis
    using font_size_by_kind [of "parse_as headings_soup" no_page_breaks "[]"] w by simp
qed

subsection \<open>C5: vertical spacing by kind\<close>

text \<open>
  C5. The vertical space inserted between the previous text block and the text block of an
  element is the one the table gives for its kind: 10 for the three headings, 5 for a
  paragraph, 2 for a list item, 5 for code. For a list item the bullet cell stands between
  the spacing and the text; it is read as part of the item's block.
\<close>

theorem spacing_by_kind:
  "gaps 0 (drawn (build_pdf parse_html L html FPDF)) =
     map (\<lambda>(k, t). (spacing k, t)) (walk (parse_html html))
   \<and> map spacing [H1, H2, H3, Paragraph, ListItem, InlineCode, CodeBlock] =
       [10, 10, 10, 5, 2, 5, 5]"
  by (simp add: drawn_build_pdf drawn_FPDF gaps_emit)

theorem spacing_by_kind_witness:
  "gaps 0 (drawn (build_pdf (parse_as example_soup) no_page_breaks [] FPDF)) =
     [(10, ascii ''Title''), (5, ascii ''Some text.''), (2, ascii ''item one''),
      (2, ascii ''item two'')]"
proof -
  have w: "walk (parse_as example_soup []) =
     [(H1, ascii ''Title''), (Paragraph, ascii ''Some text.''),
      (ListItem, ascii ''item one''), (ListItem, ascii ''item two'')]"
    by (simp add: parse_as_def example_soup_def walk_defs text_defs)
  show ?thesis
    using spacing_by_kind [of "parse_as example_soup" no_page_breaks "[]"] w by simp
qed

subsection \<open>C6: the cell before a list item\<close>

text \<open>
  The structure that C6 describes holds: a cell of width 5 is drawn immediately before the
  text block of every list item, and the document holds no other cell.
\<close>

lemma cell_only_before_list_items:
  "prefixes None (drawn (build_pdf parse_html L html FPDF)) =
     map (\<lambda>(k, t). (if k = ListItem then Some (5, bullet) else None, t)) (walk (parse_html html))
   \<and> cells (drawn (build_pdf parse_html L html FPDF)) =
     map (\<lambda>r. (5, bullet)) (filter (\<lambda>(k, t). k = ListItem) (walk (parse_html html)))"
  by (simp add: drawn_build_pdf drawn_FPDF prefixes_emit cells_emit)

text \<open>
  C6. What the cell holds is the literal of line 44 as the source file stores it. That is
  the three code points U+00E2, U+20AC, U+00A2 (the UTF-8 bytes of the bullet U+2022 read
  as Windows-1252 text), not the one code point U+2022. For a document with a paragraph, a
  list item and a code block the program draws this three-character string in the cell.
\<close>

theorem list_item_cell_holds_three_characters:
  "prefixes None (drawn (build_pdf (parse_as list_soup) no_page_breaks [] FPDF)) =
     [(None, ascii ''x''), (Some (5, [226, 8364, 162]), ascii ''y''), (None, ascii ''z'')]
   \<and> cells (drawn (build_pdf (parse_as list_soup) no_page_breaks [] FPDF)) =
     [(5, [226, 8364, 162])]
   \<and> bullet \<noteq> [8226]"
proof -
  have w: "walk (parse_as list_soup []) =
     [(Paragraph, ascii ''x''), (ListItem, ascii ''y''), (CodeBlock, ascii ''z'')]"
    by (simp add: parse_as_def list_soup_def walk_defs text_defs)
  show ?thesis
    using cell_only_before_list_items [of "parse_as list_soup" no_page_breaks "[]"] w
    by (simp add: bullet_def)
qed

subsection \<open>C7: a failed run leaves the files as they were\<close>

text \<open>
  C7. With no file at the input path \<open>main\<close> fails with \<open>FileAccessError\<close>. Whenever
  \<open>main\<close> or \<open>create_pdf\<close> fails, with any of the four failures, the world after the run
  is the world before it: no file has been created or changed.
\<close>

theorem failure_leaves_files_untouched:
  "(files w input_file = None \<longrightarrow> main md parse_html L w = (Inl FileAccessError, w))
   \<and> (main md parse_html L w = (Inl e, w') \<longrightarrow> w' = w)
   \<and> (create_pdf parse_html L html out w = (Inl e2, w2) \<longrightarrow> w2 = w)"
proof (intro conjI impI)
  assume "files w input_file = None"
  then show "main md parse_html L w = (Inl FileAccessError, w)"
    by (simp add: main_def read_markdown_file_def)
next
  assume "main md parse_html L w = (Inl e, w')"
  then show "w' = w" by (rule main_failure)
next
  assume "create_pdf parse_html L html out w = (Inl e2, w2)"
  then show "w2 = w" by (rule create_pdf_failure)
qed

theorem failure_leaves_files_untouched_witness:
  "files empty_world input_file = None
   \<and> main (render_as []) (parse_as empty_soup) no_page_breaks empty_world =
       (Inl FileAccessError, empty_world)
   \<and> create_pdf (parse_as empty_soup) no_page_breaks [] output_file empty_world =
       (Inl FontLoadError, empty_world)
   \<and> files empty_world output_file = None"
proof -
  have a: "files empty_world input_file = None"
    by (simp add: empty_world_def)
  have c: "create_pdf (parse_as empty_soup) no_page_breaks [] output_file empty_world =
       (Inl FontLoadError, empty_world)"
    by (simp add: create_pdf_def PDF_def empty_world_def)
  have o: "files empty_world output_file = None"
    by (simp add: empty_world_def)
  note t = failure_leaves_files_untouched
    [of empty_world "render_as []" "parse_as empty_soup" no_page_breaks FileAccessError
      empty_world "[]" output_file FontLoadError empty_world]
  show ?thesis using t a c o by blast
qed

subsection \<open>C8: a successful run writes one document with at least one page\<close>

text \<open>
  C8. A run of \<open>main\<close> that succeeds has read a text file, changes the files at the output
  path only, and puts there the document built from the rendered input; that document has
  at least one page, whatever the library's page breaks add. With a text file at the
  input path, the font in place and the output path writable the run does succeed, for
  every content of the input file.
\<close>

theorem successful_run_writes_one_pdf:
  "(main md parse_html L w = (Inr u, w') \<longrightarrow>
     (\<exists>s. files w input_file = Some (TextFile s) \<and>
        files w' = (files w)(output_file \<mapsto>
          PdfFile (build_pdf parse_html L (convert_markdown_to_html md s) FPDF)) \<and>
        1 \<le> page (build_pdf parse_html L (convert_markdown_to_html md s) FPDF)))
   \<and> (files w input_file = Some (TextFile s0) \<and> files w font_file = Some FontFile \<and>
        writable w output_file \<longrightarrow> fst (main md parse_html L w) = Inr ())"
proof (intro conjI impI)
  assume "main md parse_html L w = (Inr u, w')"
  then obtain s where s: "files w input_file = Some (TextFile s)"
     "files w' = (files w)(output_file \<mapsto>
        PdfFile (build_pdf parse_html L (convert_markdown_to_html md s) FPDF))"
    using main_success by blast
  have "1 \<le> page (build_pdf parse_html L (convert_markdown_to_html md s) FPDF)"
    using page_build_pdf [of FPDF parse_html L "convert_markdown_to_html md s"] by simp
  then show "\<exists>s. files w input_file = Some (TextFile s) \<and>
        files w' = (files w)(output_file \<mapsto>
          PdfFile (build_pdf parse_html L (convert_markdown_to_html md s) FPDF)) \<and>
        1 \<le> page (build_pdf parse_html L (convert_markdown_to_html md s) FPDF)"
    using s by blast
next
  assume "files w input_file = Some (TextFile s0) \<and> files w font_file = Some FontFile \<and>
        writable w output_file"
  then show "fst (main md parse_html L w) = Inr ()"
    using main_succeeds by blast
qed

theorem successful_run_writes_one_pdf_witness:
  "main (render_as []) (parse_as empty_soup) no_page_breaks (sample_world []) =
     (Inr (), (sample_world [])
        \<lparr>files := (files (sample_world []))(output_file \<mapsto>
            PdfFile \<lparr>font_family = ''DejaVu'', font_size_pt = 12, page = 1, drawn = []\<rparr>),
         stdout := [ascii ''PDF generated successfully: project_description.pdf'']\<rparr>)
   \<and> files (sample_world []) output_file = None
   \<and> (\<exists>s. files (sample_world []) input_file = Some (TextFile s) \<and>
        1 \<le> page (build_pdf (parse_as empty_soup) no_page_breaks
                 (convert_markdown_to_html (render_as []) s) FPDF))"
proof -
  let ?w' = "(sample_world [])
        \<lparr>files := (files (sample_world []))(output_file \<mapsto>
            PdfFile \<lparr>font_family = ''DejaVu'', font_size_pt = 12, page = 1, drawn = []\<rparr>),
         stdout := [ascii ''PDF generated successfully: project_description.pdf'']\<rparr>"
  have b: "build_pdf (parse_as empty_soup) no_page_breaks [] FPDF =
      \<lparr>font_family = ''DejaVu'', font_size_pt = 12, page = 1, drawn = []\<rparr>"
    by (simp add: build_pdf_def parse_as_def empty_soup_def find_all_def fpdf_defs)
  have m: "main (render_as []) (parse_as empty_soup) no_page_breaks (sample_world []) =
      (Inr (), ?w')"
    by (simp add: main_def read_markdown_file_def create_pdf_def PDF_def pdf_output_def
        convert_markdown_to_html_def render_as_def b sample_world_def
        input_file_def output_file_def font_file_def ascii_def)
  have o: "files (sample_world []) output_file = None"
    by (simp add: sample_world_def input_file_def output_file_def font_file_def)
  note t = successful_run_writes_one_pdf
    [of "render_as []" "parse_as empty_soup" no_page_breaks "sample_world []" "()" ?w' "[]"]
  have "\<exists>s. files (sample_world []) input_file = Some (TextFile s) \<and>
        1 \<le> page (build_pdf (parse_as empty_soup) no_page_breaks
                 (convert_markdown_to_html (render_as []) s) FPDF)"
    using t m by blast
  then show ?thesis using m o by blast
qed

subsection \<open>C10: the font is set before every write\<close>

text \<open>
  C10. Whatever the state of the document before the loop and whatever the order of the
  elements, every cell and text block that the loop draws is in family DejaVu at the size
  of the kind of the element it is drawn for.
\<close>

theorem font_set_before_every_write:
  "fonts (drawn (fold (process_element L) es d)) =
     fonts (drawn d) @
     concat (map (\<lambda>(k, t). replicate (if k = ListItem then 2 else 1) (''DejaVu'', font_size k))
       (List.map_filter element_record es))"
  by (simp add: drawn_fold_process_element fonts_append fonts_emit)

theorem font_set_before_every_write_witness:
  "fonts (drawn (fold (process_element no_page_breaks)
      [Tag ''pre'' [NavigableString (ascii ''z'')], Tag ''li'' [NavigableString (ascii ''y'')],
       Tag ''h1'' [NavigableString (ascii ''x'')], Tag ''p'' []] stale_font)) =
   [(''DejaVu'', 10), (''DejaVu'', 12), (''DejaVu'', 12), (''DejaVu'', 16), (''DejaVu'', 12)]"
  using font_set_before_every_write [of no_page_breaks
      "[Tag ''pre'' [NavigableString (ascii ''z'')], Tag ''li'' [NavigableString (ascii ''y'')],
       Tag ''h1'' [NavigableString (ascii ''x'')], Tag ''p'' []]" stale_font]
  by (simp add: stale_font_def classify_def numeral_2_eq_2)

end
